theory Spec2Isabelle
  imports Complex_Main
begin

section \<open>Video frame extractor: a model of \<open>video_frame_extractor.py\<close>\<close>

text \<open>
  The development follows \<open>FrameExtractorThread.run\<close> and
  \<open>VideoFrameExtractor.on_roi_selected\<close>. Python floats (times, the frame rate,
  the scale factors) are modelled as exact rationals, so every statement below is about
  the arithmetic the code writes down, not about the rounding of IEEE doubles. Python
  integers are \<open>int\<close>. The video decoder, the file system and the image writer are
  parameters of the model: each call the code makes to them is answered by a function of
  the call's arguments, and an exception they raise is one of the possible answers.
\<close>

subsection \<open>Python and numpy primitives\<close>

text \<open>\<open>int(x)\<close> on a float truncates toward zero.\<close>

definition py_int :: "rat \<Rightarrow> int" where
  "py_int r = (if 0 \<le> r then \<lfloor>r\<rfloor> else \<lceil>r\<rceil>)"

text \<open>
  \<open>np.linspace(start, stop, num, dtype=int)\<close>: \<open>num\<close> samples
  \<open>start + i * step\<close> with \<open>step = (stop - start) / (num - 1)\<close>, the last one
  set to \<open>stop\<close>, each rounded down to an integer. With \<open>num = 1\<close> the only
  sample is \<open>start\<close>; with \<open>num = 0\<close> the array is empty.
\<close>

definition linspace_int :: "int \<Rightarrow> int \<Rightarrow> nat \<Rightarrow> int list" where
  "linspace_int start stop num =
     (if num = 0 then []
      else if num = 1 then [start]
      else map (\<lambda>i. \<lfloor>of_int start + of_nat i * ((of_int stop - of_int start) / of_nat (num - 1)) :: rat\<rfloor>)
             [0..<num - 1] @ [stop])"

text \<open>
  \<open>xs[a:b]\<close>: a negative bound counts from the end, and both bounds are cut to the
  length of the sequence. Slicing never raises.
\<close>

definition py_slice :: "int \<Rightarrow> int \<Rightarrow> 'a list \<Rightarrow> 'a list" where
  "py_slice a b xs =
     (let n = int (length xs);
          lo = (if a < 0 then max (a + n) 0 else min a n);
          hi = (if b < 0 then max (b + n) 0 else min b n)
      in take (nat (hi - lo)) (drop (nat lo) xs))"

text \<open>A decoded frame is its rows of pixels; \<open>frame.size\<close> counts the pixels.\<close>

type_synonym frame = "nat list list"

definition frame_size :: "frame \<Rightarrow> nat" where
  "frame_size f = sum_list (map length f)"

text \<open>\<open>frame[y0:y1, x0:x1]\<close>\<close>

definition slice2 :: "int \<Rightarrow> int \<Rightarrow> int \<Rightarrow> int \<Rightarrow> frame \<Rightarrow> frame" where
  "slice2 y0 y1 x0 x1 f = map (py_slice x0 x1) (py_slice y0 y1 f)"

subsection \<open>String formatting\<close>

fun digits :: "nat \<Rightarrow> string" where
  "digits n =
     (if n < 10 then [''0123456789'' ! n]
      else digits (n div 10) @ [''0123456789'' ! (n mod 10)])"

definition zfill :: "nat \<Rightarrow> string \<Rightarrow> string" where
  "zfill w s = replicate (w - length s) (CHR ''0'') @ s"

text \<open>\<open>f"{n:06d}"\<close> for a counter that is never negative.\<close>

definition fmt_06d :: "nat \<Rightarrow> string" where
  "fmt_06d n = zfill 6 (digits n)"

definition round_half_even :: "rat \<Rightarrow> int" where
  "round_half_even r =
     (let f = \<lfloor>r\<rfloor>; d = r - of_int f
      in if d < 1 / 2 then f
         else if 1 / 2 < d then f + 1
         else if even f then f else f + 1)"

text \<open>\<open>f"{t:.2f}"\<close>: two decimals, the exact value rounded half to even.\<close>

definition fmt_2f :: "rat \<Rightarrow> string" where
  "fmt_2f t =
     (let h = nat (round_half_even (\<bar>t\<bar> * 100))
      in (if t < 0 then ''-'' else '''') @ digits (h div 100) @ ''.'' @ zfill 2 (digits (h mod 100)))"

text \<open>\<open>f"frame_{frame_count:06d}_t{timestamp:.2f}s.jpg"\<close>\<close>

definition frame_filename :: "nat \<Rightarrow> rat \<Rightarrow> string" where
  "frame_filename n t = ''frame_'' @ fmt_06d n @ ''_t'' @ fmt_2f t @ ''s.jpg''"

text \<open>\<open>os.path.join(d, name)\<close> for a name that does not start with a slash.\<close>

definition path_join :: "string \<Rightarrow> string \<Rightarrow> string" where
  "path_join d name =
     (if d = [] then name
      else if last d = CHR ''/'' then d @ name
      else d @ ''/'' @ name)"

subsection \<open>The collaborators of the worker\<close>

text \<open>
  \<open>cap.set(cv2.CAP_PROP_POS_FRAMES, idx); ret, frame = cap.read()\<close> gives a frame,
  or \<open>ret = False\<close>, or raises.
\<close>

datatype read_result = Frame frame | NoFrame | ReadRaises string

text \<open>\<open>cv2.imwrite\<close> returns \<open>True\<close> or \<open>False\<close>, or raises. The code ignores
  the value it returns.\<close>

datatype write_result = Written | NotWritten | WriteRaises string

record capture =
  isOpened :: bool
  prop_fps :: rat
  prop_frame_count :: rat
  prop_frame_width :: rat
  prop_frame_height :: rat
  read_at :: "int \<Rightarrow> read_result"

text \<open>\<open>makedirs d\<close> is \<open>None\<close> when \<open>os.makedirs(d, exist_ok=True)\<close> returns and
  the message of the exception otherwise.\<close>

record filesystem =
  makedirs :: "string \<Rightarrow> string option"
  imwrite :: "string \<Rightarrow> frame \<Rightarrow> write_result"

text \<open>The fields of a \<open>FrameExtractorThread\<close>.\<close>

record thread_args =
  video_path :: string
  output_dir :: string
  interval_seconds :: rat
  frames_per_second :: int
  roi :: "(int \<times> int \<times> int \<times> int) option"

text \<open>The three signals of the thread.\<close>

datatype event = Progress int | Finished nat | Error string

text \<open>
  What a run leaves behind: the signals emitted in order, whether the output directory
  was created, the frames read (window start and index of every seek), the paths handed
  to \<open>cv2.imwrite\<close>, the files it wrote, whether \<open>cap.release()\<close> was called,
  the local counter \<open>frame_count\<close>, and the exception in flight, if any.
\<close>

record state =
  events :: "event list"
  dir_created :: bool
  reads :: "(rat \<times> int) list"
  imwrite_calls :: "string list"
  files :: "(string \<times> frame) list"
  released :: bool
  frame_count :: nat
  raised :: "string option"

definition init_state :: state where
  "init_state = \<lparr>events = [], dir_created = False, reads = [], imwrite_calls = [],
     files = [], released = False, frame_count = 0, raised = None\<rparr>"

subsection \<open>\<open>FrameExtractorThread.run\<close>\<close>

text \<open>The local variables computed before the loop (lines 111 to 128).\<close>

record locals =
  fps :: rat
  total_frames :: int
  video_duration :: rat
  video_width :: int
  video_height :: int
  roi_x :: int
  roi_y :: int
  roi_w :: int
  roi_h :: int
  frame_interval :: rat

definition run_locals :: "thread_args \<Rightarrow> capture \<Rightarrow> locals" where
  "run_locals self cap =
     (let fps = prop_fps cap;
          total_frames = py_int (prop_frame_count cap);
          video_duration = (if fps > 0 then of_int total_frames / fps else 0);
          video_width = py_int (prop_frame_width cap);
          video_height = py_int (prop_frame_height cap);
          (rx, ry, rw, rh) =
            (case roi self of
               Some (x, y, w, h) \<Rightarrow>
                 (let x' = max 0 (min x (video_width - 1));
                      y' = max 0 (min y (video_height - 1))
                  in (x', y', min w (video_width - x'), min h (video_height - y')))
             | None \<Rightarrow> (0, 0, video_width, video_height));
          frame_interval =
            (if interval_seconds self > 0 then interval_seconds self else video_duration)
      in \<lparr>fps = fps, total_frames = total_frames, video_duration = video_duration,
          video_width = video_width, video_height = video_height,
          roi_x = rx, roi_y = ry, roi_w = rw, roi_h = rh,
          frame_interval = frame_interval\<rparr>)"

text \<open>The frame indices of the window that starts at \<open>current_time\<close>
  (lines 136 to 144).\<close>

definition start_frame :: "locals \<Rightarrow> rat \<Rightarrow> int" where
  "start_frame l current_time = py_int (current_time * fps l)"

definition end_frame :: "locals \<Rightarrow> rat \<Rightarrow> int" where
  "end_frame l current_time =
     py_int (min ((current_time + frame_interval l) * fps l) (of_int (total_frames l)))"

definition frames_in_interval :: "thread_args \<Rightarrow> locals \<Rightarrow> rat \<Rightarrow> rat" where
  "frames_in_interval self l current_time =
     min (of_int (frames_per_second self) * frame_interval l)
         (of_int (end_frame l current_time - start_frame l current_time))"

definition frame_indices :: "thread_args \<Rightarrow> locals \<Rightarrow> rat \<Rightarrow> int list" where
  "frame_indices self l current_time =
     (if frames_in_interval self l current_time > 0
      then linspace_int (start_frame l current_time) (end_frame l current_time - 1)
             (nat (py_int (frames_in_interval self l current_time)))
      else if start_frame l current_time < total_frames l then [start_frame l current_time]
      else [])"

text \<open>The cropping step (lines 153 and 154).\<close>

definition apply_roi :: "thread_args \<Rightarrow> locals \<Rightarrow> frame \<Rightarrow> frame" where
  "apply_roi self l frame =
     (if roi self \<noteq> None \<and> roi_w l > 0 \<and> roi_h l > 0
      then slice2 (roi_y l) (roi_y l + roi_h l) (roi_x l) (roi_x l + roi_w l) frame
      else frame)"

text \<open>The percentage sent with the progress signal (lines 165 and 166).\<close>

definition progress_percent :: "locals \<Rightarrow> rat \<Rightarrow> int" where
  "progress_percent l current_time =
     min (if video_duration l > 0 then py_int ((current_time / video_duration l) * 100) else 0) 100"

text \<open>
  The \<open>for idx in frame_indices\<close> loop (lines 146 to 166). A read that gives no
  frame leaves the loop (\<open>break\<close>); an exception stops everything and is kept in
  \<open>raised\<close>.
\<close>

fun for_loop ::
  "thread_args \<Rightarrow> capture \<Rightarrow> filesystem \<Rightarrow> locals \<Rightarrow> rat \<Rightarrow> int list \<Rightarrow> state \<Rightarrow> state"
where
  "for_loop self cap fs l current_time [] st = st"
| "for_loop self cap fs l current_time (idx # rest) st =
     (let st1 = st\<lparr>reads := reads st @ [(current_time, idx)]\<rparr> in
      case read_at cap idx of
        ReadRaises m \<Rightarrow> st1\<lparr>raised := Some m\<rparr>
      | NoFrame \<Rightarrow> st1
      | Frame frame0 \<Rightarrow>
          (let frame = apply_roi self l frame0 in
           if frame_size frame > 0 then
             (let frame_path =
                    path_join (output_dir self) (frame_filename (frame_count st1) current_time);
                  st2 = st1\<lparr>imwrite_calls := imwrite_calls st1 @ [frame_path]\<rparr>
              in case imwrite fs frame_path frame of
                   WriteRaises m \<Rightarrow> st2\<lparr>raised := Some m\<rparr>
                 | Written \<Rightarrow>
                     for_loop self cap fs l current_time rest
                       (st2\<lparr>files := files st2 @ [(frame_path, frame)],
                            frame_count := frame_count st2 + 1,
                            events := events st2 @ [Progress (progress_percent l current_time)]\<rparr>)
                 | NotWritten \<Rightarrow>
                     for_loop self cap fs l current_time rest
                       (st2\<lparr>frame_count := frame_count st2 + 1,
                            events := events st2 @ [Progress (progress_percent l current_time)]\<rparr>))
           else for_loop self cap fs l current_time rest st1))"

text \<open>
  The \<open>while current_time < video_duration\<close> loop (lines 134 to 170). The measure
  of its termination is the number of windows left.
\<close>

function while_loop ::
  "thread_args \<Rightarrow> capture \<Rightarrow> filesystem \<Rightarrow> locals \<Rightarrow> rat \<Rightarrow> state \<Rightarrow> state"
where
  "while_loop self cap fs l current_time st =
     (if current_time < video_duration l then
        (let st' = for_loop self cap fs l current_time (frame_indices self l current_time) st
         in if raised st' \<noteq> None then st'
            else if frame_interval l \<le> 0 then st'
            else while_loop self cap fs l (current_time + frame_interval l) st')
      else st)"
  by pat_completeness auto
termination
proof (relation "measure (\<lambda>(self, cap, fs, l, t, st). nat \<lceil>(video_duration l - t) / frame_interval l\<rceil>)",
       goal_cases)
  case 1
  show ?case by simp
next
  case (2 self cap fs l t st st')
  then have fi: "0 < frame_interval l" and lt: "t < video_duration l"
    by auto
  have "(video_duration l - (t + frame_interval l)) / frame_interval l
          = (video_duration l - t) / frame_interval l - 1"
    using fi by (simp add: field_simps)
  moreover have "0 < (video_duration l - t) / frame_interval l"
    using fi lt by simp
  ultimately show ?case by simp
qed

declare while_loop.simps [simp del]

text \<open>The whole of \<open>run\<close>, with its \<open>try\<close> and \<open>except\<close>.\<close>

definition run :: "thread_args \<Rightarrow> capture \<Rightarrow> filesystem \<Rightarrow> state" where
  "run self cap fs =
     (if \<not> isOpened cap
      then init_state\<lparr>events := [Error (''Failed to open video: '' @ video_path self)]\<rparr>
      else
        (let l = run_locals self cap in
         case makedirs fs (output_dir self) of
           Some m \<Rightarrow> init_state\<lparr>events := [Error (''Error extracting frames: '' @ m)], raised := Some m\<rparr>
         | None \<Rightarrow>
             (let st = while_loop self cap fs l 0 (init_state\<lparr>dir_created := True\<rparr>)
              in case raised st of
                   Some m \<Rightarrow> st\<lparr>events := events st @ [Error (''Error extracting frames: '' @ m)]\<rparr>
                 | None \<Rightarrow> st\<lparr>released := True, events := events st @ [Finished (frame_count st)]\<rparr>)))"

subsection \<open>The windows and the sampling plan\<close>

text \<open>
  The values \<open>current_time\<close> takes at the head of the \<open>while\<close> loop for as long
  as no exception is raised: the window starts.
\<close>

function window_starts :: "locals \<Rightarrow> rat \<Rightarrow> rat list" where
  "window_starts l current_time =
     (if current_time < video_duration l then
        (if frame_interval l \<le> 0 then [current_time]
         else current_time # window_starts l (current_time + frame_interval l))
      else [])"
  by pat_completeness auto
termination
proof (relation "measure (\<lambda>(l, t). nat \<lceil>(video_duration l - t) / frame_interval l\<rceil>)", goal_cases)
  case 1
  show ?case by simp
next
  case (2 l t)
  then have fi: "0 < frame_interval l" and lt: "t < video_duration l"
    by auto
  have "(video_duration l - (t + frame_interval l)) / frame_interval l
          = (video_duration l - t) / frame_interval l - 1"
    using fi by (simp add: field_simps)
  moreover have "0 < (video_duration l - t) / frame_interval l"
    using fi lt by simp
  ultimately show ?case by simp
qed

declare window_starts.simps [simp del]

text \<open>One turn of the \<open>while\<close> loop, skipped once an exception is in flight.\<close>

definition window_step ::
  "thread_args \<Rightarrow> capture \<Rightarrow> filesystem \<Rightarrow> locals \<Rightarrow> state \<Rightarrow> rat \<Rightarrow> state"
where
  "window_step self cap fs l st t =
     (if raised st \<noteq> None then st
      else for_loop self cap fs l t (frame_indices self l t) st)"

text \<open>The sampling plan: every window start with the frame indices of its window.\<close>

definition sampling_plan :: "thread_args \<Rightarrow> locals \<Rightarrow> (rat \<times> int) list" where
  "sampling_plan self l =
     concat (map (\<lambda>t. map (Pair t) (frame_indices self l t)) (window_starts l 0))"

text \<open>The indices of a window that the loop reads: all of them up to and including the
  first one that gives no frame.\<close>

fun attempted :: "capture \<Rightarrow> int list \<Rightarrow> int list" where
  "attempted cap [] = []"
| "attempted cap (idx # rest) =
     (case read_at cap idx of Frame f \<Rightarrow> idx # attempted cap rest | _ \<Rightarrow> [idx])"


subsection \<open>\<open>VideoFrameExtractor.on_roi_selected\<close>\<close>

text \<open>
  The fields of the main window that the handler reads and writes: the shape
  (height, width) of the current frame, the size (width, height) of the pixmap shown in
  the label, the size of the label, the selected region, and the state of the button.
\<close>

record window =
  current_frame_shape :: "(int \<times> int) option"
  pixmap_size :: "(int \<times> int) option"
  label_size :: "int \<times> int"
  win_roi :: "(int \<times> int \<times> int \<times> int) option"
  clear_roi_btn_enabled :: bool

text \<open>
  The rectangle the handler computes from a selection (lines 376 to 407), or \<open>None\<close>
  when it returns without one. The division \<open>//\<close> rounds down, as \<open>div\<close> does.
\<close>

definition map_to_video_space ::
  "window \<Rightarrow> int \<Rightarrow> int \<Rightarrow> int \<Rightarrow> int \<Rightarrow> (int \<times> int \<times> int \<times> int) option"
where
  "map_to_video_space win x y width height =
     (case (current_frame_shape win, pixmap_size win) of
        (Some (frame_h, frame_w), Some (pixmap_w, pixmap_h)) \<Rightarrow>
          (let x_offset = (fst (label_size win) - pixmap_w) div 2;
               y_offset = (snd (label_size win) - pixmap_h) div 2;
               x_adj = x - x_offset;
               y_adj = y - y_offset
           in if x_adj < 0 \<or> y_adj < 0 \<or> x_adj \<ge> pixmap_w \<or> y_adj \<ge> pixmap_h then None
              else
                (let scale_x = (if pixmap_w > 0 then of_int frame_w / of_int pixmap_w else 1 :: rat);
                     scale_y = (if pixmap_h > 0 then of_int frame_h / of_int pixmap_h else 1 :: rat);
                     roi_x0 = py_int (of_int x_adj * scale_x);
                     roi_y0 = py_int (of_int y_adj * scale_y);
                     roi_w0 = py_int (of_int width * scale_x);
                     roi_h0 = py_int (of_int height * scale_y);
                     roi_x1 = max 0 (min roi_x0 (frame_w - 1));
                     roi_y1 = max 0 (min roi_y0 (frame_h - 1));
                     roi_w1 = min roi_w0 (frame_w - roi_x1);
                     roi_h1 = min roi_h0 (frame_h - roi_y1)
                 in Some (roi_x1, roi_y1, roi_w1, roi_h1)))
      | _ \<Rightarrow> None)"

definition on_roi_selected :: "window \<Rightarrow> int \<Rightarrow> int \<Rightarrow> int \<Rightarrow> int \<Rightarrow> window" where
  "on_roi_selected win x y width height =
     (case map_to_video_space win x y width height of
        None \<Rightarrow> win
      | Some r \<Rightarrow> win\<lparr>win_roi := Some r, clear_roi_btn_enabled := True\<rparr>)"

subsection \<open>Sample inputs\<close>

text \<open>A video of four frames of two rows and four columns at two frames a second.\<close>

definition sample_frame :: frame where
  "sample_frame = [[1, 2, 3, 4], [5, 6, 7, 8]]"

definition sample_cap :: capture where
  "sample_cap = \<lparr>isOpened = True, prop_fps = 2, prop_frame_count = 4,
     prop_frame_width = 4, prop_frame_height = 2,
     read_at = (\<lambda>idx. if 0 \<le> idx \<and> idx < 4 then Frame sample_frame else NoFrame)\<rparr>"

definition sample_fs :: filesystem where
  "sample_fs = \<lparr>makedirs = (\<lambda>d. None), imwrite = (\<lambda>p f. Written)\<rparr>"

definition sample_args :: thread_args where
  "sample_args = \<lparr>video_path = ''in.mp4'', output_dir = ''out'', interval_seconds = 1,
     frames_per_second = 2, roi = None\<rparr>"

subsection \<open>Predicates on the final state\<close>


text \<open>No read and no write raises.\<close>

definition no_exceptions :: "capture \<Rightarrow> filesystem \<Rightarrow> bool" where
  "no_exceptions cap fs \<longleftrightarrow>
     (\<forall>idx m. read_at cap idx \<noteq> ReadRaises m) \<and> (\<forall>p f m. imwrite fs p f \<noteq> WriteRaises m)"

text \<open>The same video with a first frame that cannot be decoded.\<close>

definition gappy_cap :: capture where
  "gappy_cap = sample_cap\<lparr>read_at := (\<lambda>idx. if 1 \<le> idx \<and> idx < 4 then Frame sample_frame else NoFrame)\<rparr>"

text \<open>An image writer that raises, and one that reports failure without raising.\<close>

definition raising_fs :: filesystem where
  "raising_fs = \<lparr>makedirs = (\<lambda>d. None), imwrite = (\<lambda>p f. WriteRaises ''disk full'')\<rparr>"


section \<open>Properties\<close>

subsection \<open>The loop as a fold over the windows\<close>

lemma foldl_window_step_raised:
  "raised st \<noteq> None \<Longrightarrow> foldl (window_step self cap fs l) st ts = st"
  by (induction ts) (simp_all add: window_step_def)

lemma while_loop_foldl:
  "raised st = None \<Longrightarrow>
   while_loop self cap fs l t st = foldl (window_step self cap fs l) st (window_starts l t)"
proof (induction l t arbitrary: st rule: window_starts.induct)
  case (1 l t)
  show ?case
  proof (cases "t < video_duration l")
    case False
    then show ?thesis
      by (simp add: while_loop.simps [of _ _ _ l t] window_starts.simps [of l t])
  next
    case True
    let ?st' = "for_loop self cap fs l t (frame_indices self l t) st"
    have step: "window_step self cap fs l st t = ?st'"
      using "1.prems" by (simp add: window_step_def)
    show ?thesis
    proof (cases "raised ?st' \<noteq> None \<or> frame_interval l \<le> 0")
      case stop: True
      have "while_loop self cap fs l t st = ?st'"
        using True stop by (auto simp add: while_loop.simps [of _ _ _ l t] Let_def)
      moreover have "foldl (window_step self cap fs l) st (window_starts l t) = ?st'"
        using True stop step
        by (auto simp add: window_starts.simps [of l t] foldl_window_step_raised)
      ultimately show ?thesis by simp
    next
      case go: False
      then have r: "raised ?st' = None" and fi: "\<not> frame_interval l \<le> 0"
        by auto
      have "while_loop self cap fs l t st = while_loop self cap fs l (t + frame_interval l) ?st'"
        using True r fi by (simp add: while_loop.simps [of _ _ _ l t] Let_def)
      also have "\<dots> = foldl (window_step self cap fs l) ?st' (window_starts l (t + frame_interval l))"
        using "1.IH" [OF True fi r] .
      also have "\<dots> = foldl (window_step self cap fs l) st (window_starts l t)"
        using True fi step by (simp add: window_starts.simps [of l t])
      finally show ?thesis .
    qed
  qed
qed

lemma window_starts_bounds:
  "x \<in> set (window_starts l t) \<Longrightarrow> t \<le> x \<and> x < video_duration l"
proof (induction l t rule: window_starts.induct)
  case (1 l t)
  from "1.prems" have mem:
    "x \<in> set (if t < video_duration l
                then (if frame_interval l \<le> 0 then [t]
                      else t # window_starts l (t + frame_interval l))
                else [])"
    by (simp add: window_starts.simps [of l t])
  show ?case
  proof (cases "x = t")
    case True
    with mem show ?thesis by (auto split: if_splits)
  next
    case False
    with mem have c: "t < video_duration l" "\<not> frame_interval l \<le> 0"
      and m: "x \<in> set (window_starts l (t + frame_interval l))"
      by (auto split: if_splits)
    from "1.IH" [OF c m] c show ?thesis by simp
  qed
qed

lemma window_starts_spaced:
  "sorted_wrt (\<lambda>a b. a + frame_interval l \<le> b) (window_starts l t)"
proof (induction l t rule: window_starts.induct)
  case (1 l t)
  show ?case
    using 1 window_starts_bounds [of _ l "t + frame_interval l"]
    by (subst window_starts.simps) auto
qed

lemma window_starts_length:
  "length (window_starts l t) =
     (if t < video_duration l
      then (if frame_interval l \<le> 0 then 1 else nat \<lceil>(video_duration l - t) / frame_interval l\<rceil>)
      else 0)"
proof (induction l t rule: window_starts.induct)
  case (1 l t)
  show ?case
  proof (cases "t < video_duration l \<and> \<not> frame_interval l \<le> 0")
    case False
    then show ?thesis by (subst window_starts.simps) auto
  next
    case True
    then have fi: "0 < frame_interval l" and lt: "t < video_duration l" by auto
    have e: "(video_duration l - (t + frame_interval l)) / frame_interval l
          = (video_duration l - t) / frame_interval l - 1"
      using fi by (simp add: field_simps)
    have p: "0 < (video_duration l - t) / frame_interval l"
      using fi lt by simp
    have nonpos: "\<not> t + frame_interval l < video_duration l \<Longrightarrow> \<lceil>(video_duration l - t) / frame_interval l\<rceil> = 1"
    proof -
      assume "\<not> t + frame_interval l < video_duration l"
      then have "(video_duration l - t) / frame_interval l \<le> 1" using fi by (simp add: field_simps)
      with p show ?thesis by (simp add: ceiling_eq_iff) 
    qed
    have c: "0 < \<lceil>(video_duration l - t) / frame_interval l\<rceil>"
      using p by simp
    have suc: "Suc (nat (\<lceil>(video_duration l - t) / frame_interval l\<rceil> - 1))
                 = nat \<lceil>(video_duration l - t) / frame_interval l\<rceil>"
      using c by linarith
    have "length (window_starts l t) = Suc (length (window_starts l (t + frame_interval l)))"
      using True by (subst window_starts.simps) simp
    also have "length (window_starts l (t + frame_interval l))
                 = nat (\<lceil>(video_duration l - t) / frame_interval l\<rceil> - 1)"
    proof (cases "t + frame_interval l < video_duration l")
      case True
      then show ?thesis using "1.IH" lt fi e by simp
    next
      case False
      then show ?thesis using "1.IH" lt fi nonpos by simp
    qed
    finally show ?thesis using True suc by simp
  qed
qed

subsection \<open>Failure to open the video\<close>

text \<open>
  C10. If the video cannot be opened, the run emits the error signal and returns before
  the output directory is created: no directory, no read, no call of the image writer,
  no file. A run that created the directory had opened the video.
\<close>

theorem open_failure_creates_nothing:
  "\<not> isOpened cap \<Longrightarrow>
     events (run self cap fs) = [Error (''Failed to open video: '' @ video_path self)]
     \<and> \<not> dir_created (run self cap fs)
     \<and> reads (run self cap fs) = []
     \<and> imwrite_calls (run self cap fs) = []
     \<and> files (run self cap fs) = []"
  by (simp add: run_def init_state_def)

theorem open_failure_creates_nothing_witness:
  "\<not> isOpened (sample_cap\<lparr>isOpened := False\<rparr>)
   \<and> events (run sample_args (sample_cap\<lparr>isOpened := False\<rparr>) sample_fs)
       = [Error ''Failed to open video: in.mp4'']
   \<and> \<not> dir_created (run sample_args (sample_cap\<lparr>isOpened := False\<rparr>) sample_fs)
   \<and> files (run sample_args (sample_cap\<lparr>isOpened := False\<rparr>) sample_fs) = []"
  using open_failure_creates_nothing [of "sample_cap\<lparr>isOpened := False\<rparr>" sample_args sample_fs]
  by (simp add: sample_args_def)

subsection \<open>One window\<close>

lemma for_loop_events:
  "\<exists>k. events (for_loop self cap fs l t idxs st)
         = events st @ replicate k (Progress (progress_percent l t))"
proof (induction idxs arbitrary: st)
  case Nil
  show ?case by simp
next
  case (Cons idx rest)
  show ?case
  proof (cases "read_at cap idx")
    case NoFrame
    then show ?thesis by simp
  next
    case (ReadRaises m)
    then show ?thesis by simp
  next
    case (Frame frame0)
    let ?st1 = "st\<lparr>reads := reads st @ [(t, idx)]\<rparr>"
    let ?frame = "apply_roi self l frame0"
    let ?path = "path_join (output_dir self) (frame_filename (frame_count st) t)"
    let ?st2 = "?st1\<lparr>imwrite_calls := imwrite_calls ?st1 @ [?path]\<rparr>"
    let ?p = "Progress (progress_percent l t)"
    show ?thesis
    proof (cases "frame_size ?frame > 0")
      case False
      with Frame Cons.IH [of ?st1] show ?thesis by (simp add: Let_def)
    next
      case True
      show ?thesis
      proof (cases "imwrite fs ?path ?frame")
        case (WriteRaises m)
        with Frame True show ?thesis by (simp add: Let_def)
      next
        case Written
        let ?st3 = "?st2\<lparr>files := files ?st2 @ [(?path, ?frame)],
                            frame_count := frame_count ?st2 + 1,
                            events := events ?st2 @ [?p]\<rparr>"
        from Cons.IH [of ?st3] obtain k where
          "events (for_loop self cap fs l t rest ?st3) = events ?st3 @ replicate k ?p" ..
        then have "events (for_loop self cap fs l t (idx # rest) st) = events st @ replicate (Suc k) ?p"
          using Frame True Written by (simp add: Let_def replicate_app_Cons_same)
        then show ?thesis ..
      next
        case NotWritten
        let ?st3 = "?st2\<lparr>frame_count := frame_count ?st2 + 1,
                            events := events ?st2 @ [?p]\<rparr>"
        from Cons.IH [of ?st3] obtain k where
          "events (for_loop self cap fs l t rest ?st3) = events ?st3 @ replicate k ?p" ..
        then have "events (for_loop self cap fs l t (idx # rest) st) = events st @ replicate (Suc k) ?p"
          using Frame True NotWritten by (simp add: Let_def replicate_app_Cons_same)
        then show ?thesis ..
      qed
    qed
  qed
qed


lemma for_loop_reads:
  "no_exceptions cap fs \<Longrightarrow>
   reads (for_loop self cap fs l t idxs st) = reads st @ map (Pair t) (attempted cap idxs)
   \<and> raised (for_loop self cap fs l t idxs st) = raised st"
  by (induction idxs arbitrary: st)
     (auto simp add: Let_def no_exceptions_def split: read_result.splits write_result.splits)




subsection \<open>All the windows\<close>


lemma foldl_window_step_reads:
  "no_exceptions cap fs \<Longrightarrow> raised st = None \<Longrightarrow>
   reads (foldl (window_step self cap fs l) st ts)
     = reads st @ concat (map (\<lambda>t. map (Pair t) (attempted cap (frame_indices self l t))) ts)
   \<and> raised (foldl (window_step self cap fs l) st ts) = None"
proof (induction ts arbitrary: st)
  case Nil
  then show ?case by simp
next
  case (Cons t ts)
  let ?st' = "for_loop self cap fs l t (frame_indices self l t) st"
  have step: "window_step self cap fs l st t = ?st'"
    using Cons.prems by (simp add: window_step_def)
  have r: "reads ?st' = reads st @ map (Pair t) (attempted cap (frame_indices self l t))"
    and n: "raised ?st' = None"
    using for_loop_reads [OF Cons.prems(1)] Cons.prems(2) by simp_all
  from Cons.IH [OF Cons.prems(1) n] step r show ?case by simp
qed



lemma foldl_window_step_events:
  "sorted (map (progress_percent l) ts) \<Longrightarrow>
   \<exists>ps. events (foldl (window_step self cap fs l) st ts) = events st @ map Progress ps
        \<and> sorted ps \<and> set ps \<subseteq> progress_percent l ` set ts"
proof (induction ts arbitrary: st)
  case Nil
  have "events st = events st @ map Progress [] \<and> sorted ([]::int list) \<and> set [] \<subseteq> progress_percent l ` set []"
    by simp
  then show ?case by (metis foldl_Nil)
next
  case (Cons t ts)
  let ?st' = "window_step self cap fs l st t"
  obtain k where k: "events ?st' = events st @ replicate k (Progress (progress_percent l t))"
  proof (cases "raised st")
    case None
    with for_loop_events [of self cap fs l t "frame_indices self l t" st] that
    show ?thesis by (auto simp add: window_step_def)
  next
    case (Some m)
    then have "events ?st' = events st @ replicate 0 (Progress (progress_percent l t))"
      by (simp add: window_step_def)
    with that show ?thesis by blast
  qed
  from Cons.prems have s: "sorted (map (progress_percent l) ts)"
    and le: "\<forall>x \<in> set ts. progress_percent l t \<le> progress_percent l x"
    by simp_all
  from Cons.IH [OF s, of ?st'] obtain ps where
    ps: "events (foldl (window_step self cap fs l) ?st' ts) = events ?st' @ map Progress ps"
      "sorted ps" "set ps \<subseteq> progress_percent l ` set ts"
    by blast
  let ?qs = "replicate k (progress_percent l t) @ ps"
  have "events (foldl (window_step self cap fs l) st (t # ts)) = events st @ map Progress ?qs"
    using k ps(1) by simp
  moreover have "sorted ?qs"
    using ps(2,3) le by (auto simp add: sorted_append)
  moreover have "set ?qs \<subseteq> progress_percent l ` set (t # ts)"
    using ps(3) by auto
  ultimately show ?case by blast
qed

subsection \<open>The whole run\<close>

lemma run_opened:
  assumes "isOpened cap" and "makedirs fs (output_dir self) = None"
  shows "run self cap fs =
           (let W = foldl (window_step self cap fs (run_locals self cap))
                      (init_state\<lparr>dir_created := True\<rparr>) (window_starts (run_locals self cap) 0)
            in case raised W of
                 Some m \<Rightarrow> W\<lparr>events := events W @ [Error (''Error extracting frames: '' @ m)]\<rparr>
               | None \<Rightarrow> W\<lparr>released := True, events := events W @ [Finished (frame_count W)]\<rparr>)"
proof -
  have "raised (init_state\<lparr>dir_created := True\<rparr>) = None"
    by (simp add: init_state_def)
  note eq = while_loop_foldl [OF this, of self cap fs "run_locals self cap" 0]
  show ?thesis using assms unfolding run_def Let_def eq by simp
qed

lemma window_starts_sorted: "sorted (window_starts l t)"
proof (induction l t rule: window_starts.induct)
  case (1 l t)
  show ?case
  proof (cases "t < video_duration l \<and> \<not> frame_interval l \<le> 0")
    case False
    then show ?thesis by (subst window_starts.simps) auto
  next
    case True
    then have "\<forall>x \<in> set (window_starts l (t + frame_interval l)). t \<le> x"
      using window_starts_bounds [of _ l "t + frame_interval l"] by fastforce
    with True 1 show ?thesis by (subst window_starts.simps) simp
  qed
qed


lemma py_int_mono: "a \<le> b \<Longrightarrow> py_int a \<le> py_int b"
  unfolding py_int_def
  by (auto intro: floor_mono ceiling_mono order_trans [OF ceiling_mono, of a 0] simp add: not_le)

lemma progress_percent_mono:
  "a \<le> b \<Longrightarrow> progress_percent l a \<le> progress_percent l b"
proof (cases "video_duration l > 0")
  case False
  then show ?thesis by (simp add: progress_percent_def)
next
  case True
  assume "a \<le> b"
  with True have "a / video_duration l * 100 \<le> b / video_duration l * 100"
    by (simp add: divide_right_mono)
  from py_int_mono [OF this] True show ?thesis
    by (simp add: progress_percent_def min_le_iff_disj)
qed


lemma sorted_progress_windows:
  "sorted (map (progress_percent l) (window_starts l t))"
  using window_starts_sorted [of l t]
  by (simp add: sorted_map sorted_wrt_mono_rel [of _ "(\<le>)"] progress_percent_mono)


subsection \<open>Progress\<close>



subsection \<open>Reads that give no frame\<close>

lemma attempted_first_failure:
  "\<forall>i \<in> set pre. \<exists>f. read_at cap i = Frame f \<Longrightarrow> read_at cap idx = NoFrame \<Longrightarrow>
   attempted cap (pre @ idx # post) = pre @ [idx]"
  by (induction pre) auto

text \<open>
  C2. In a job whose video opens, whose output directory can be created and in which no
  call raises, a read that gives no frame ends the reads of its own window only: the frames
  read are, window after window in the order of the plan, the planned indices of the window
  up to and including the first one that gives no frame. Such a run emits no error signal,
  ends with the finished signal carrying the frame counter, and releases the capture.
\<close>

theorem failed_read_skips_rest_of_window_only:
  assumes "isOpened cap" and "makedirs fs (output_dir self) = None" and "no_exceptions cap fs"
  shows "reads (run self cap fs)
           = concat (map (\<lambda>t. map (Pair t) (attempted cap (frame_indices self (run_locals self cap) t)))
                       (window_starts (run_locals self cap) 0))
         \<and> (\<exists>ps. events (run self cap fs) = map Progress ps @ [Finished (frame_count (run self cap fs))])
         \<and> released (run self cap fs)"
proof -
  let ?l = "run_locals self cap"
  let ?i = "init_state\<lparr>dir_created := True\<rparr>"
  let ?W = "foldl (window_step self cap fs ?l) ?i (window_starts ?l 0)"
  have i: "raised ?i = None" by (simp add: init_state_def)
  from foldl_window_step_reads [OF assms(3) i, of self ?l "window_starts ?l 0"]
  have rd: "reads ?W = concat (map (\<lambda>t. map (Pair t) (attempted cap (frame_indices self ?l t))) (window_starts ?l 0))"
    and nr: "raised ?W = None"
    by (simp_all add: init_state_def)
  from run_opened [OF assms(1,2)] nr
  have r: "run self cap fs = ?W\<lparr>released := True, events := events ?W @ [Finished (frame_count ?W)]\<rparr>"
    by (simp add: Let_def)
  from foldl_window_step_events [where l = ?l and ts = "window_starts ?l 0" and self = self
        and cap = cap and fs = fs and st = ?i, OF sorted_progress_windows]
  obtain ps where ps: "events ?W = map Progress ps" by (auto simp add: init_state_def)
  have "events (run self cap fs) = map Progress ps @ [Finished (frame_count (run self cap fs))]"
    using r ps by simp
  then have "\<exists>ps. events (run self cap fs) = map Progress ps @ [Finished (frame_count (run self cap fs))]" ..
  moreover have "reads (run self cap fs) = reads ?W" "released (run self cap fs)"
    using r by simp_all
  ultimately show ?thesis using rd by simp
qed

theorem failed_read_skips_rest_of_window_only_witness:
  "isOpened gappy_cap \<and> makedirs sample_fs (output_dir sample_args) = None
   \<and> no_exceptions gappy_cap sample_fs
   \<and> read_at gappy_cap 0 = NoFrame
   \<and> frame_indices sample_args (run_locals sample_args gappy_cap) 0 = [0, 1]
   \<and> reads (run sample_args gappy_cap sample_fs) = [(0, 0), (1, 2), (1, 3)]
   \<and> events (run sample_args gappy_cap sample_fs) = [Progress 50, Progress 50, Finished 2]
   \<and> released (run sample_args gappy_cap sample_fs)"
proof -
  have h1: "isOpened gappy_cap" by (simp add: gappy_cap_def sample_cap_def)
  have h2: "makedirs sample_fs (output_dir sample_args) = None" by (simp add: sample_fs_def)
  have h3: "no_exceptions gappy_cap sample_fs"
    by (simp add: no_exceptions_def gappy_cap_def sample_cap_def sample_fs_def)
  have e1: "read_at gappy_cap 0 = NoFrame" by (simp add: gappy_cap_def)
  have e2: "frame_indices sample_args (run_locals sample_args gappy_cap) 0 = [0, 1]" by code_simp
  have e3: "concat (map (\<lambda>t. map (Pair t) (attempted gappy_cap
               (frame_indices sample_args (run_locals sample_args gappy_cap) t)))
               (window_starts (run_locals sample_args gappy_cap) 0)) = [(0, 0), (1, 2), (1, 3)]"
    by code_simp
  have e4: "events (run sample_args gappy_cap sample_fs) = [Progress 50, Progress 50, Finished 2]"
    by code_simp
  from failed_read_skips_rest_of_window_only [OF h1 h2 h3] e3
  have "reads (run sample_args gappy_cap sample_fs) = [(0, 0), (1, 2), (1, 3)]"
    and "released (run sample_args gappy_cap sample_fs)"
    by simp_all
  with h1 h2 h3 e1 e2 e4 show ?thesis by simp
qed

subsection \<open>Exceptions in the loop\<close>

text \<open>
  C3, at a failing input: the image writer raises at the first frame. The run emits the
  error signal as its only signal, and the capture is left unreleased:
  \<open>cap.release()\<close> is called on the path to the finished signal only.
\<close>

theorem exception_leaves_capture_unreleased:
  "events (run sample_args sample_cap raising_fs) = [Error ''Error extracting frames: disk full'']
   \<and> released (run sample_args sample_cap raising_fs) = False
   \<and> released (run sample_args sample_cap sample_fs) = True"
  by code_simp

subsection \<open>File names and the counter\<close>





subsection \<open>Evenly spaced indices\<close>

lemma linspace_int_length: "length (linspace_int start stop num) = num"
  by (simp add: linspace_int_def)

lemma linspace_sample_bounds:
  fixes start stop :: int and i n :: nat
  assumes "start \<le> stop" and "i \<le> n" and "0 < n"
  shows "start \<le> \<lfloor>of_int start + of_nat i * ((of_int stop - of_int start) / of_nat n) :: rat\<rfloor>"
    and "\<lfloor>of_int start + of_nat i * ((of_int stop - of_int start) / of_nat n) :: rat\<rfloor> \<le> stop"
proof -
  let ?d = "(of_int stop - of_int start) / of_nat n :: rat"
  have d0: "0 \<le> ?d" using assms by simp
  have "0 \<le> of_nat i * ?d" using d0 by (intro mult_nonneg_nonneg) simp_all
  then have "(of_int start :: rat) \<le> of_int start + of_nat i * ?d" by linarith
  then show "start \<le> \<lfloor>of_int start + of_nat i * ?d\<rfloor>" by (simp add: le_floor_iff)
  have "of_nat i * ?d \<le> of_nat n * ?d"
    using assms d0 by (intro mult_right_mono) simp_all
  also have "of_nat n * ?d = of_int stop - of_int start" using assms by simp
  finally have "of_int start + of_nat i * ?d \<le> (of_int stop :: rat)" by simp
  then have "\<lfloor>of_int start + of_nat i * ?d\<rfloor> \<le> \<lfloor>of_int stop :: rat\<rfloor>" by (rule floor_mono)
  then show "\<lfloor>of_int start + of_nat i * ?d\<rfloor> \<le> stop" by simp
qed

lemma linspace_sample_mono:
  fixes start stop :: int and i j n :: nat
  assumes "start \<le> stop" and "i \<le> j"
  shows "\<lfloor>of_int start + of_nat i * ((of_int stop - of_int start) / of_nat n) :: rat\<rfloor>
           \<le> \<lfloor>of_int start + of_nat j * ((of_int stop - of_int start) / of_nat n) :: rat\<rfloor>"
proof -
  let ?d = "(of_int stop - of_int start) / of_nat n :: rat"
  have "0 \<le> ?d" using assms by simp
  then have "of_nat i * ?d \<le> of_nat j * ?d"
    using assms by (intro mult_right_mono) simp_all
  then show ?thesis by (intro floor_mono) simp
qed

lemma linspace_int_nth:
  assumes "i < num"
  shows "linspace_int start stop num ! i =
           (if num = 1 then start
            else \<lfloor>of_int start + of_nat i * ((of_int stop - of_int start) / of_nat (num - 1)) :: rat\<rfloor>)"
proof (cases "num = 1")
  case True
  with assms show ?thesis by (simp add: linspace_int_def)
next
  case False
  with assms have n: "2 \<le> num" by simp
  show ?thesis
  proof (cases "i < num - 1")
    case True
    with n False show ?thesis by (simp add: linspace_int_def nth_append)
  next
    case False
    with assms have i: "i = num - 1" by simp
    have "(of_int start :: rat) + of_nat (num - 1) * ((of_int stop - of_int start) / of_nat (num - 1))
            = of_int stop"
      using n by simp
    then have "\<lfloor>of_int start + of_nat (num - 1) * ((of_int stop - of_int start) / of_nat (num - 1)) :: rat\<rfloor> = stop"
      by simp
    with n i show ?thesis by (simp add: linspace_int_def nth_append)
  qed
qed

lemma linspace_int_bounds:
  assumes "start \<le> stop" and "x \<in> set (linspace_int start stop num)"
  shows "start \<le> x \<and> x \<le> stop"
proof -
  from assms(2) obtain i where i: "i < num" and x: "x = linspace_int start stop num ! i"
    by (auto simp add: in_set_conv_nth linspace_int_length)
  show ?thesis
  proof (cases "num = 1")
    case True
    with i x assms(1) show ?thesis by (simp add: linspace_int_nth)
  next
    case False
    with i have "i \<le> num - 1" "0 < num - 1" by simp_all
    from linspace_sample_bounds [OF assms(1) this] x i False show ?thesis
      by (simp add: linspace_int_nth)
  qed
qed

lemma linspace_int_sorted:
  assumes "start \<le> stop"
  shows "sorted (linspace_int start stop num)"
proof -
  have "linspace_int start stop num ! i \<le> linspace_int start stop num ! j"
    if "i \<le> j" "j < num" for i j
  proof (cases "num = 1")
    case True
    with that show ?thesis by (simp add: linspace_int_nth)
  next
    case False
    with that linspace_sample_mono [OF assms that(1), of "num - 1"] show ?thesis
      by (simp add: linspace_int_nth)
  qed
  then show ?thesis by (simp add: sorted_iff_nth_mono linspace_int_length)
qed

subsection \<open>The indices of one window\<close>

lemma frame_indices_bounds:
  assumes "x \<in> set (frame_indices self l t)"
  shows "start_frame l t \<le> x \<and> (x \<le> end_frame l t - 1 \<or> x = start_frame l t)"
proof (cases "frames_in_interval self l t > 0")
  case True
  then have "0 < (of_int (end_frame l t - start_frame l t) :: rat)"
    by (simp add: frames_in_interval_def)
  then have le: "start_frame l t \<le> end_frame l t - 1" by simp
  from assms True have "x \<in> set (linspace_int (start_frame l t) (end_frame l t - 1)
                                  (nat (py_int (frames_in_interval self l t))))"
    by (simp add: frame_indices_def)
  from linspace_int_bounds [OF le this] show ?thesis by simp
next
  case False
  with assms show ?thesis by (auto simp add: frame_indices_def split: if_splits)
qed

lemma frame_indices_sorted: "sorted (frame_indices self l t)"
proof (cases "frames_in_interval self l t > 0")
  case True
  then have "0 < (of_int (end_frame l t - start_frame l t) :: rat)"
    by (simp add: frames_in_interval_def)
  then have "start_frame l t \<le> end_frame l t - 1" by simp
  from linspace_int_sorted [OF this] True show ?thesis by (simp add: frame_indices_def)
next
  case False
  then show ?thesis by (simp add: frame_indices_def)
qed

lemma end_frame_le_next_start:
  "end_frame l t \<le> start_frame l (t + frame_interval l)"
  unfolding end_frame_def start_frame_def by (intro py_int_mono) simp

lemma start_frame_mono:
  "0 \<le> fps l \<Longrightarrow> a \<le> b \<Longrightarrow> start_frame l a \<le> start_frame l b"
  unfolding start_frame_def by (intro py_int_mono mult_right_mono)

lemma sorted_concat_map:
  fixes f :: "'a \<Rightarrow> int list"
  assumes "sorted_wrt R ts" and "\<forall>t \<in> set ts. sorted (f t)"
    and "\<forall>a b. R a b \<longrightarrow> (\<forall>x \<in> set (f a). \<forall>y \<in> set (f b). x \<le> y)"
  shows "sorted (concat (map f ts))"
  using assms by (induction ts) (auto simp add: sorted_append)

subsection \<open>Order of the whole plan\<close>

text \<open>
  C9. When the frame rate is positive, the frame indices of the whole sampling plan are in
  non-decreasing order, across the windows as well as inside each of them.
\<close>

theorem sampling_plan_indices_sorted:
  assumes "0 < fps l"
  shows "sorted (map snd (sampling_plan self l))"
proof -
  let ?R = "\<lambda>a b. a + frame_interval l \<le> b \<and> a \<le> b"
  have "sorted_wrt (\<lambda>a b. a + frame_interval l \<le> b) (window_starts l 0)"
    by (rule window_starts_spaced)
  moreover have "sorted_wrt (\<le>) (window_starts l 0)"
    using window_starts_sorted [of l 0] by simp
  ultimately have R: "sorted_wrt ?R (window_starts l 0)"
    by (simp add: sorted_wrt_iff_nth_less)
  have cross: "x \<le> y"
    if "?R a b" "x \<in> set (frame_indices self l a)" "y \<in> set (frame_indices self l b)" for a b x y
  proof -
    from frame_indices_bounds [OF that(2)]
    have x: "x \<le> end_frame l a - 1 \<or> x = start_frame l a" by simp
    from frame_indices_bounds [OF that(3)] have y: "start_frame l b \<le> y" by simp
    have f: "0 \<le> fps l" using assms by simp
    have "end_frame l a \<le> start_frame l (a + frame_interval l)"
      by (rule end_frame_le_next_start)
    also have "\<dots> \<le> start_frame l b" using that(1) f by (intro start_frame_mono) simp_all
    finally have e: "end_frame l a \<le> start_frame l b" .
    have s: "start_frame l a \<le> start_frame l b" using that(1) f by (intro start_frame_mono) simp_all
    from x e s y show ?thesis by auto
  qed
  have "sorted (concat (map (frame_indices self l) (window_starts l 0)))"
    by (rule sorted_concat_map [OF R]) (use cross frame_indices_sorted in blast)+
  moreover have "map snd (sampling_plan self l) = concat (map (frame_indices self l) (window_starts l 0))"
    by (simp add: sampling_plan_def map_concat comp_def)
  ultimately show ?thesis by simp
qed

theorem sampling_plan_indices_sorted_witness:
  "0 < fps (run_locals sample_args sample_cap)
   \<and> map snd (sampling_plan sample_args (run_locals sample_args sample_cap)) = [0, 1, 2, 3]
   \<and> sorted (map snd (sampling_plan sample_args (run_locals sample_args sample_cap)))"
proof -
  have a: "0 < fps (run_locals sample_args sample_cap)" by code_simp
  have b: "map snd (sampling_plan sample_args (run_locals sample_args sample_cap)) = [0, 1, 2, 3]"
    by code_simp
  from a b sampling_plan_indices_sorted [OF a, of sample_args] show ?thesis by blast
qed

subsection \<open>Termination\<close>

text \<open>
  C8. The extraction loop terminates for every configuration: it is a total function (the
  number of windows left decreases at every turn), it makes one turn for each window
  start, and the number of window starts is \<open>ceiling (duration / interval)\<close>, or one when
  the interval is not positive, or none when the duration is not positive. With duration 0
  and an interval that is not positive the plan is empty: nothing is read and the image
  writer is never called.
\<close>

theorem extraction_loop_terminates:
  "length (window_starts l 0)
     = (if 0 < video_duration l
        then (if frame_interval l \<le> 0 then 1 else nat \<lceil>video_duration l / frame_interval l\<rceil>)
        else 0)
   \<and> (raised st = None \<longrightarrow>
        while_loop self cap fs l 0 st = foldl (window_step self cap fs l) st (window_starts l 0))
   \<and> (video_duration (run_locals self cap) = 0 \<and> interval_seconds self \<le> 0 \<longrightarrow>
        sampling_plan self (run_locals self cap) = []
        \<and> reads (run self cap fs) = []
        \<and> imwrite_calls (run self cap fs) = []
        \<and> files (run self cap fs) = [])"
proof -
  have A: "length (window_starts l 0)
     = (if 0 < video_duration l
        then (if frame_interval l \<le> 0 then 1 else nat \<lceil>video_duration l / frame_interval l\<rceil>)
        else 0)"
    using window_starts_length [of l 0] by simp
  have B: "raised st = None \<longrightarrow>
        while_loop self cap fs l 0 st = foldl (window_step self cap fs l) st (window_starts l 0)"
    by (simp add: while_loop_foldl)
  have C: "sampling_plan self (run_locals self cap) = []
        \<and> reads (run self cap fs) = []
        \<and> imwrite_calls (run self cap fs) = []
        \<and> files (run self cap fs) = []"
    if d: "video_duration (run_locals self cap) = 0"
  proof -
    let ?l = "run_locals self cap"
    have w: "window_starts ?l 0 = []"
      using d by (simp add: window_starts.simps [of ?l 0])
    have p: "sampling_plan self ?l = []" using w by (simp add: sampling_plan_def)
    have "reads (run self cap fs) = [] \<and> imwrite_calls (run self cap fs) = []
          \<and> files (run self cap fs) = []"
    proof (cases "isOpened cap \<and> makedirs fs (output_dir self) = None")
      case True
      then show ?thesis using run_opened [of cap fs self] w
        by (simp add: Let_def init_state_def)
    next
      case False
      then show ?thesis
        by (cases "makedirs fs (output_dir self)") (auto simp add: run_def init_state_def Let_def)
    qed
    with p show ?thesis by simp
  qed
  from A B C show ?thesis by blast
qed

theorem extraction_loop_terminates_witness:
  "0 < video_duration (run_locals sample_args sample_cap)
   \<and> length (window_starts (run_locals sample_args sample_cap) 0) = 2
   \<and> nat \<lceil>video_duration (run_locals sample_args sample_cap)
            / frame_interval (run_locals sample_args sample_cap)\<rceil> = 2
   \<and> raised init_state = None
   \<and> while_loop sample_args sample_cap sample_fs (run_locals sample_args sample_cap) 0 init_state
       = foldl (window_step sample_args sample_cap sample_fs (run_locals sample_args sample_cap))
           init_state (window_starts (run_locals sample_args sample_cap) 0)
   \<and> video_duration (run_locals (sample_args\<lparr>interval_seconds := 0\<rparr>)
                                  (sample_cap\<lparr>prop_frame_count := 0\<rparr>)) = 0
   \<and> interval_seconds (sample_args\<lparr>interval_seconds := 0\<rparr>) \<le> 0
   \<and> sampling_plan (sample_args\<lparr>interval_seconds := 0\<rparr>)
        (run_locals (sample_args\<lparr>interval_seconds := 0\<rparr>) (sample_cap\<lparr>prop_frame_count := 0\<rparr>)) = []
   \<and> imwrite_calls (run (sample_args\<lparr>interval_seconds := 0\<rparr>)
                         (sample_cap\<lparr>prop_frame_count := 0\<rparr>) sample_fs) = []
   \<and> events (run (sample_args\<lparr>interval_seconds := 0\<rparr>)
                  (sample_cap\<lparr>prop_frame_count := 0\<rparr>) sample_fs) = [Finished 0]"
proof -
  let ?a0 = "sample_args\<lparr>interval_seconds := 0\<rparr>"
  let ?c0 = "sample_cap\<lparr>prop_frame_count := 0\<rparr>"
  have h1: "0 < video_duration (run_locals sample_args sample_cap)" by code_simp
  have h2: "nat \<lceil>video_duration (run_locals sample_args sample_cap)
            / frame_interval (run_locals sample_args sample_cap)\<rceil> = 2" by code_simp
  have h3: "\<not> frame_interval (run_locals sample_args sample_cap) \<le> 0" by code_simp
  have h4: "raised init_state = None" by (simp add: init_state_def)
  have h5: "video_duration (run_locals ?a0 ?c0) = 0" by code_simp
  have h6: "interval_seconds ?a0 \<le> 0" by simp
  have h7: "events (run ?a0 ?c0 sample_fs) = [Finished 0]" by code_simp
  note t1 = extraction_loop_terminates [where l = "run_locals sample_args sample_cap"
              and st = init_state and self = sample_args and cap = sample_cap and fs = sample_fs]
  note t2 = extraction_loop_terminates [where l = "run_locals ?a0 ?c0" and st = init_state
              and self = ?a0 and cap = ?c0 and fs = sample_fs]
  from t1 h1 h2 h3 have r1: "length (window_starts (run_locals sample_args sample_cap) 0) = 2"
    by simp
  from t1 h4 have r2:
    "while_loop sample_args sample_cap sample_fs (run_locals sample_args sample_cap) 0 init_state
       = foldl (window_step sample_args sample_cap sample_fs (run_locals sample_args sample_cap))
           init_state (window_starts (run_locals sample_args sample_cap) 0)"
    by blast
  from t2 h5 h6 have r3: "sampling_plan ?a0 (run_locals ?a0 ?c0) = []"
    and r4: "imwrite_calls (run ?a0 ?c0 sample_fs) = []"
    by blast+
  show ?thesis
    apply (intro conjI)
             apply (rule h1)
            apply (rule r1)
           apply (rule h2)
          apply (rule h4)
         apply (rule r2)
        apply (rule h5)
       apply (rule h6)
      apply (rule r3)
     apply (rule r4)
    apply (rule h7)
    done
qed

end
